theory Spec2Isabelle
  imports Main "HOL-Library.AList"
begin

section \<open>Python values and exceptions\<close>

text \<open>
  The consumers of \<^verbatim>\<open>toonkor_collector2/consumers.py\<close> work on what
  \<^verbatim>\<open>json.loads\<close> returns: dynamically typed values. A dict is an association list in
  insertion order (a Python dict keeps it), JSON numbers are integers here (floats are not
  modelled), and string contents are opaque characters.
\<close>

datatype json =
    JNull
  | JBool bool
  | JInt int
  | JStr string
  | JList "json list"
  | JObj "(string \<times> json) list"

datatype error =
    KeyError
  | TypeError
  | ValueError
  | DoesNotExist
  | IndexError
  | FileNotFoundError
  | OSError

text \<open>\<^verbatim>\<open>d[k]\<close> with a string key: only a dict accepts it, and a missing key raises.\<close>

fun getitem :: "json \<Rightarrow> string \<Rightarrow> error + json" where
  "getitem (JObj kvs) k = (case map_of kvs k of None \<Rightarrow> Inl KeyError | Some v \<Rightarrow> Inr v)"
| "getitem _ k = Inl TypeError"

text \<open>\<^verbatim>\<open>d[k] = v\<close>: a dict is updated in place (a new key goes last); a list, a string
  or a scalar raises TypeError.\<close>

fun setitem :: "json \<Rightarrow> string \<Rightarrow> json \<Rightarrow> error + json" where
  "setitem (JObj kvs) k v = Inr (JObj (AList.update k v kvs))"
| "setitem _ k v = Inl TypeError"

text \<open>Truth value of an object in an \<^verbatim>\<open>if\<close>.\<close>

fun truthy :: "json \<Rightarrow> bool" where
  "truthy JNull = False"
| "truthy (JBool b) = b"
| "truthy (JInt n) = (n \<noteq> 0)"
| "truthy (JStr s) = (s \<noteq> [])"
| "truthy (JList xs) = (xs \<noteq> [])"
| "truthy (JObj kvs) = (kvs \<noteq> [])"

text \<open>\<^verbatim>\<open>len(x)\<close> and \<^verbatim>\<open>for c in x\<close>: lists, dicts (their keys) and strings (their
  characters) have them, the scalars raise TypeError.\<close>

fun py_len :: "json \<Rightarrow> error + nat" where
  "py_len (JList xs) = Inr (length xs)"
| "py_len (JObj kvs) = Inr (length kvs)"
| "py_len (JStr s) = Inr (length s)"
| "py_len _ = Inl TypeError"

fun py_iter :: "json \<Rightarrow> error + json list" where
  "py_iter (JList xs) = Inr xs"
| "py_iter (JObj kvs) = Inr (map (\<lambda>kv. JStr (fst kv)) kvs)"
| "py_iter (JStr s) = Inr (map (\<lambda>c. JStr [c]) s)"
| "py_iter _ = Inl TypeError"

text \<open>The loops below assign into each element they visit. The elements of a list are
  themselves objects of the list, so the list afterwards holds the updated elements; the
  keys of a dict and the characters of a string are immutable strings, on which the
  assignment raises, so such a container is only ever left as it was.\<close>

fun rebuild :: "json \<Rightarrow> json list \<Rightarrow> json" where
  "rebuild (JList _) xs = JList xs"
| "rebuild c xs = c"

text \<open>\<^verbatim>\<open>int(x)\<close>. How Python reads an integer out of a string is a parameter
  \<open>int_of_str\<close> (\<open>None\<close> when the string is no integer literal).\<close>

fun py_int :: "(string \<Rightarrow> int option) \<Rightarrow> json \<Rightarrow> error + int" where
  "py_int int_of_str (JInt n) = Inr n"
| "py_int int_of_str (JBool b) = Inr (if b then 1 else 0)"
| "py_int int_of_str (JStr s) =
     (case int_of_str s of None \<Rightarrow> Inl ValueError | Some n \<Rightarrow> Inr n)"
| "py_int int_of_str _ = Inl TypeError"

section \<open>Effects: the trace of calls to the collaborators\<close>

text \<open>
  \<^verbatim>\<open>Chapter\<close>, \<^verbatim>\<open>StatusChoices\<close>, \<^verbatim>\<open>encode_name\<close>, \<^verbatim>\<open>update_cached_chapter\<close>,
  \<^verbatim>\<open>downloader\<close> and \<^verbatim>\<open>cleaner\<close> are imported by \<^verbatim>\<open>consumers.py\<close> from modules that
  are not among the sources. A consumer method is therefore modelled by the calls it makes
  to them and to the channel layer, in program order, and by the exception that ends it, if
  any. The calls made before an exception stay made.
\<close>

text \<open>Modelled from the spec: \<^verbatim>\<open>StatusChoices\<close> of \<^verbatim>\<open>models.py\<close>; section 3 gives the
  values of a status field.\<close>

datatype StatusChoices = NONE | LOADING | READY | REMOVING | ERROR

text \<open>Modelled from the spec: a \<^verbatim>\<open>Chapter\<close> row of \<^verbatim>\<open>models.py\<close>, with the two status
  fields of section 3.\<close>

record Chapter =
  download_status :: StatusChoices
  translation_status :: StatusChoices

datatype event =
    ChapterSave json int Chapter
      \<comment> \<open>\<^verbatim>\<open>chapter_obj.save()\<close> of the row found under (manhwa_id, index)\<close>
  | CacheUpdate json json string string
      \<comment> \<open>\<^verbatim>\<open>update_cached_chapter(manhwa_id, index, field, value)\<close>\<close>
  | GroupAdd string string
      \<comment> \<open>\<^verbatim>\<open>channel_layer.group_add(group, channel_name)\<close>\<close>
  | Accept
      \<comment> \<open>\<^verbatim>\<open>self.accept()\<close>\<close>
  | GroupSend string json
      \<comment> \<open>\<^verbatim>\<open>channel_layer.group_send(group, message)\<close>\<close>
  | DownloaderAppend string string json json
      \<comment> \<open>\<^verbatim>\<open>downloader.append(manhwa_id, group_name, task, chapters)\<close>\<close>
  | CleanerAppend string string json json
      \<comment> \<open>\<^verbatim>\<open>cleaner.append(manhwa_id, group_name, chapters, remove_choices)\<close>\<close>

type_synonym 'a run = "event list \<times> (error + 'a)"

definition ret :: "'a \<Rightarrow> 'a run" where
  "ret x = ([], Inr x)"

definition emit :: "event \<Rightarrow> unit run" where
  "emit ev = ([ev], Inr ())"

definition lift :: "error + 'a \<Rightarrow> 'a run" where
  "lift r = ([], r)"

fun bind :: "'a run \<Rightarrow> ('a \<Rightarrow> 'b run) \<Rightarrow> 'b run" where
  "bind (evs, Inl e) f = (evs, Inl e)"
| "bind (evs, Inr x) f = (case f x of (evs', r) \<Rightarrow> (evs @ evs', r))"

text \<open>A \<^verbatim>\<open>for\<close> loop whose body updates the element it visits.\<close>

fun for_each :: "(json \<Rightarrow> json run) \<Rightarrow> json list \<Rightarrow> json list run" where
  "for_each body [] = ret []"
| "for_each body (c # cs) =
     bind (body c) (\<lambda>c'. bind (for_each body cs) (\<lambda>cs'. ret (c' # cs')))"

section \<open>The Status Cache and the persisted store\<close>

text \<open>Modelled from the spec: \<^verbatim>\<open>update_cached_chapter\<close> of \<^verbatim>\<open>api.py\<close>, the
  \<^verbatim>\<open>set(series-id, index, field, status)\<close> of the Status Cache of section 4.1, a map
  from (series-id, chapter-index, status-field) to the current value, an entry never
  written being absent.\<close>

type_synonym status_cache = "json \<times> json \<times> string \<Rightarrow> string option"

definition update_cached_chapter ::
  "json \<Rightarrow> json \<Rightarrow> string \<Rightarrow> string \<Rightarrow> status_cache \<Rightarrow> status_cache" where
  "update_cached_chapter manhwa_id index field v cache = cache((manhwa_id, index, field) \<mapsto> v)"

fun cache_step :: "status_cache \<Rightarrow> event \<Rightarrow> status_cache" where
  "cache_step cache (CacheUpdate manhwa_id index field v) =
     update_cached_chapter manhwa_id index field v cache"
| "cache_step cache _ = cache"

definition cache_after :: "event list \<Rightarrow> status_cache \<Rightarrow> status_cache" where
  "cache_after evs cache = foldl cache_step cache evs"

text \<open>Modelled from the spec: the persisted store of section 6, \<^verbatim>\<open>get(series-id, index)\<close>
  and \<^verbatim>\<open>save(Chapter)\<close>, a map from (series-id, index) to the row.\<close>

type_synonym store = "json \<times> int \<Rightarrow> Chapter option"

fun store_step :: "store \<Rightarrow> event \<Rightarrow> store" where
  "store_step st (ChapterSave manhwa_id index row) = st((manhwa_id, index) \<mapsto> row)"
| "store_step st _ = st"

definition store_after :: "event list \<Rightarrow> store \<Rightarrow> store" where
  "store_after evs st = foldl store_step st evs"

fun is_cache_update :: "event \<Rightarrow> bool" where
  "is_cache_update (CacheUpdate _ _ _ _) = True"
| "is_cache_update _ = False"

fun is_group_send :: "event \<Rightarrow> bool" where
  "is_group_send (GroupSend _ _) = True"
| "is_group_send _ = False"

fun is_enqueue :: "event \<Rightarrow> bool" where
  "is_enqueue (DownloaderAppend _ _ _ _) = True"
| "is_enqueue (CleanerAppend _ _ _ _) = True"
| "is_enqueue _ = False"

text \<open>The Status Cache at the moment the first broadcast of a trace is published.\<close>

definition cache_at_broadcast :: "event list \<Rightarrow> status_cache \<Rightarrow> status_cache" where
  "cache_at_broadcast evs cache = cache_after (takeWhile (\<lambda>ev. \<not> is_group_send ev) evs) cache"

section \<open>consumers.py\<close>

subsection \<open>QtConsumer\<close>

text \<open>Line 58 and lines 94-96: the f-string \<^verbatim>\<open>f"download_translate_{encode_name(x)}"\<close>.
  \<^verbatim>\<open>encode_name\<close> is a parameter: the text the f-string interpolates for \<open>x\<close>.\<close>

definition group_of :: "(json \<Rightarrow> string) \<Rightarrow> json \<Rightarrow> string" where
  "group_of encode_name x = ''download_translate_'' @ encode_name x"

text \<open>\<^verbatim>\<open>QtConsumer.receive\<close>: \<open>data\<close> is \<^verbatim>\<open>json.loads(text_data)\<close>, \<open>st\<close> the persisted
  store that \<^verbatim>\<open>Chapter.objects.get\<close> reads.\<close>

definition QtConsumer_receive ::
  "(json \<Rightarrow> string) \<Rightarrow> (string \<Rightarrow> int option) \<Rightarrow> store \<Rightarrow> json \<Rightarrow> unit run" where
  "QtConsumer_receive encode_name int_of_str st data =
     bind (lift (getitem data ''toonkor_id'')) (\<lambda>toonkor_id.
     bind (lift (getitem data ''chapter'')) (\<lambda>ch.
     bind (lift (py_int int_of_str ch)) (\<lambda>chapter.
     bind (lift (case st (toonkor_id, chapter) of
                   None \<Rightarrow> Inl DoesNotExist | Some row \<Rightarrow> Inr row)) (\<lambda>chapter_obj.
     bind (emit (ChapterSave toonkor_id chapter
                   (chapter_obj\<lparr>translation_status := READY\<rparr>))) (\<lambda>_.
     bind (emit (CacheUpdate toonkor_id (JInt chapter) ''translation_status'' ''READY'')) (\<lambda>_.
     bind (lift (getitem data ''progress'')) (\<lambda>progress.
     emit (GroupSend (group_of encode_name toonkor_id)
             (JObj [(''type'', JStr ''send_progress''),
                    (''chapters'', JList [JObj [(''index'', JInt chapter),
                                                (''status'', JStr ''Translated'')]]),
                    (''progress'', progress)])))))))))"

subsection \<open>DownloadTranslateConsumer\<close>

record DownloadTranslateConsumer =
  manhwa_id :: string
  group_name :: string

text \<open>\<^verbatim>\<open>connect\<close>: \<open>toonkor_id\<close> is \<^verbatim>\<open>self.scope["url_route"]["kwargs"]["toonkor_id"]\<close>.\<close>

definition connect ::
  "(json \<Rightarrow> string) \<Rightarrow> string \<Rightarrow> string \<Rightarrow> DownloadTranslateConsumer run" where
  "connect encode_name channel_name toonkor_id =
     (let self = \<lparr>manhwa_id = ''/'' @ toonkor_id,
                  group_name = group_of encode_name (JStr (''/'' @ toonkor_id))\<rparr>
      in bind (emit (GroupAdd (group_name self) channel_name)) (\<lambda>_.
         bind (emit Accept) (\<lambda>_. ret self)))"

text \<open>The body of the loop of \<^verbatim>\<open>run_download_translate\<close>, lines 120-124.\<close>

definition download_translate_body :: "string \<Rightarrow> json \<Rightarrow> json \<Rightarrow> json run" where
  "download_translate_body mid task chapter =
     bind (lift (setitem chapter ''download_status'' (JStr ''LOADING''))) (\<lambda>chapter.
     bind (lift (getitem chapter ''index'')) (\<lambda>index.
     bind (emit (CacheUpdate (JStr mid) index ''download_status'' ''LOADING'')) (\<lambda>_.
     if task = JStr ''download_translate'' then
       bind (lift (setitem chapter ''translation_status'' (JStr ''LOADING''))) (\<lambda>chapter.
       bind (lift (getitem chapter ''index'')) (\<lambda>index.
       bind (emit (CacheUpdate (JStr mid) index ''translation_status'' ''LOADING'')) (\<lambda>_.
       ret chapter)))
     else ret chapter)))"

definition run_download_translate ::
  "DownloadTranslateConsumer \<Rightarrow> json \<Rightarrow> json \<Rightarrow> unit run" where
  "run_download_translate self task chapters =
     bind (lift (py_len chapters)) (\<lambda>total.
     bind (lift (py_iter chapters)) (\<lambda>items.
     bind (for_each (download_translate_body (manhwa_id self) task) items) (\<lambda>items'.
     bind (emit (GroupSend (group_name self)
             (JObj [(''type'', JStr ''send_progress''),
                    (''chapters'', rebuild chapters items'),
                    (''progress'', JObj [(''current'', JInt 0),
                                         (''total'', JInt (int total))])]))) (\<lambda>_.
     emit (DownloaderAppend (manhwa_id self) (group_name self) task
             (rebuild chapters items'))))))"

text \<open>The body of the loop of \<^verbatim>\<open>run_remove\<close>, lines 138-144.\<close>

definition remove_body :: "string \<Rightarrow> json \<Rightarrow> json \<Rightarrow> json run" where
  "remove_body mid remove_choices chapter =
     bind (lift (getitem remove_choices ''downloaded'')) (\<lambda>downloaded.
     bind (if truthy downloaded then
             bind (lift (setitem chapter ''download_status'' (JStr ''REMOVING''))) (\<lambda>chapter.
             bind (lift (getitem chapter ''index'')) (\<lambda>index.
             bind (emit (CacheUpdate (JStr mid) index ''download_status'' ''REMOVING'')) (\<lambda>_.
             ret chapter)))
           else ret chapter) (\<lambda>chapter.
     bind (lift (getitem remove_choices ''translated'')) (\<lambda>translated.
     if truthy translated then
       bind (lift (setitem chapter ''translation_status'' (JStr ''REMOVING''))) (\<lambda>chapter.
       bind (lift (getitem chapter ''index'')) (\<lambda>index.
       bind (emit (CacheUpdate (JStr mid) index ''remove_status'' ''REMOVING'')) (\<lambda>_.
       ret chapter)))
     else ret chapter)))"

definition run_remove :: "DownloadTranslateConsumer \<Rightarrow> json \<Rightarrow> json \<Rightarrow> unit run" where
  "run_remove self chapters remove_choices =
     bind (lift (py_iter chapters)) (\<lambda>items.
     bind (for_each (remove_body (manhwa_id self) remove_choices) items) (\<lambda>items'.
     bind (emit (GroupSend (group_name self)
             (JObj [(''type'', JStr ''send_progress''),
                    (''chapters'', rebuild chapters items'),
                    (''progress'', JObj [])]))) (\<lambda>_.
     emit (CleanerAppend (manhwa_id self) (group_name self)
             (rebuild chapters items') remove_choices))))"

text \<open>\<^verbatim>\<open>DownloadTranslateConsumer.receive\<close>: \<open>data\<close> is \<^verbatim>\<open>json.loads(text_data)\<close>.\<close>

definition DownloadTranslateConsumer_receive ::
  "DownloadTranslateConsumer \<Rightarrow> json \<Rightarrow> unit run" where
  "DownloadTranslateConsumer_receive self data =
     bind (lift (getitem data ''task'')) (\<lambda>task.
     bind (lift (getitem data ''chapters'')) (\<lambda>chapters.
     if task = JStr ''remove'' then
       bind (lift (getitem data ''remove_choices'')) (\<lambda>remove_choices.
       run_remove self chapters remove_choices)
     else run_download_translate self task chapters))"

section \<open>file_handler.py\<close>

text \<open>
  A Python \<^verbatim>\<open>str\<close> is a sequence of Unicode code points: a list of naturals. The
  functions of \<^verbatim>\<open>os.path\<close> are those of \<^verbatim>\<open>posixpath\<close>: the separator is
  \<^verbatim>\<open>/\<close> (47), the extension separator \<^verbatim>\<open>.\<close> (46).
\<close>

type_synonym pystr = "nat list"

definition ascii :: "string \<Rightarrow> pystr" where
  "ascii s = map of_char s"

definition sep :: nat where
  "sep = 47"

definition extsep :: nat where
  "extsep = 46"

definition isascii :: "pystr \<Rightarrow> bool" where
  "isascii s = list_all (\<lambda>c. c < 128) s"

text \<open>\<^verbatim>\<open>c in string.printable\<close>: the digits, letters and punctuation of ASCII with the
  space (32 to 126) and the whitespace \<^verbatim>\<open>\t\n\x0b\x0c\r\<close> (9 to 13).\<close>

definition printable :: "nat \<Rightarrow> bool" where
  "printable c = ((32 \<le> c \<and> c \<le> 126) \<or> (9 \<le> c \<and> c \<le> 13))"

text \<open>\<^verbatim>\<open>str.lower\<close>, as far as the suffix tests of \<^verbatim>\<open>prepare_files\<close> can tell: the
  ASCII capitals are lowered. The only code points above 127 whose lower case holds an
  ASCII character are U+0130 (\<^verbatim>\<open>i\<close> followed by U+0307) and U+212A (\<^verbatim>\<open>k\<close>), and neither
  can complete one of the suffixes tested, so leaving the others as they are gives the same
  answers.\<close>

definition lower :: "pystr \<Rightarrow> pystr" where
  "lower s = map (\<lambda>c. if 65 \<le> c \<and> c \<le> 90 then c + 32 else c) s"

definition endswith :: "pystr \<Rightarrow> pystr list \<Rightarrow> bool" where
  "endswith s suffixes =
     list_ex (\<lambda>suf. length suf \<le> length s \<and> drop (length s - length suf) s = suf) suffixes"

text \<open>\<^verbatim>\<open>str(index)\<close> of a non-negative integer.\<close>

fun str_nat :: "nat \<Rightarrow> pystr" where
  "str_nat n = (if n < 10 then [48 + n] else str_nat (n div 10) @ [48 + n mod 10])"

text \<open>\<^verbatim>\<open>posixpath.basename\<close>: \<^verbatim>\<open>p[p.rfind('/') + 1:]\<close>.\<close>

definition os_path_basename :: "pystr \<Rightarrow> pystr" where
  "os_path_basename p = rev (takeWhile (\<lambda>c. c \<noteq> sep) (rev p))"

text \<open>\<^verbatim>\<open>posixpath.dirname\<close>: \<^verbatim>\<open>head = p[:p.rfind('/') + 1]\<close>, and its trailing
  separators are stripped unless it is empty or made of separators only.\<close>

definition os_path_dirname :: "pystr \<Rightarrow> pystr" where
  "os_path_dirname p =
     (let head = rev (dropWhile (\<lambda>c. c \<noteq> sep) (rev p))
      in if head \<noteq> [] \<and> \<not> list_all (\<lambda>c. c = sep) head
         then rev (dropWhile (\<lambda>c. c = sep) (rev head))
         else head)"

text \<open>\<^verbatim>\<open>posixpath.splitext\<close>: the path is split at the last dot of its last component,
  unless that component has no dot or only dots before its last one.\<close>

definition os_path_splitext :: "pystr \<Rightarrow> pystr \<times> pystr" where
  "os_path_splitext p =
     (let base = os_path_basename p;
          ext = rev (takeWhile (\<lambda>c. c \<noteq> extsep) (rev base));
          stem = rev (drop 1 (dropWhile (\<lambda>c. c \<noteq> extsep) (rev base)))
      in if extsep \<in> set base \<and> \<not> list_all (\<lambda>c. c = extsep) stem
         then (take (length p - Suc (length ext)) p, extsep # ext)
         else (p, []))"

text \<open>\<^verbatim>\<open>posixpath.join\<close> of two components.\<close>

definition os_path_join :: "pystr \<Rightarrow> pystr \<Rightarrow> pystr" where
  "os_path_join a b =
     (if (case b of [] \<Rightarrow> False | c # _ \<Rightarrow> c = sep) then b
      else if a = [] \<or> last a = sep then a @ b
      else a @ sep # b)"

text \<open>
  The file system is a state \<open>'fs\<close> of any type, passed along; what the operating system
  does on it is a parameter: each operation returns the exception it raises, if any, and
  the file system it leaves. \<^verbatim>\<open>extract_archive\<close> is imported from \<^verbatim>\<open>archives.py\<close>, which
  is not among the sources, and is a parameter as well. What \<^verbatim>\<open>print\<close> writes is not
  modelled.
\<close>

record 'fs env =
  makedirs_io :: "'fs \<Rightarrow> pystr \<Rightarrow> error option \<times> 'fs"
  copy_io :: "'fs \<Rightarrow> pystr \<Rightarrow> pystr \<Rightarrow> error option \<times> 'fs"
  mkdtemp_io :: "'fs \<Rightarrow> pystr \<Rightarrow> (error + pystr) \<times> 'fs"
  extract_archive :: "'fs \<Rightarrow> pystr \<Rightarrow> pystr \<Rightarrow> (error + pystr list) \<times> 'fs"

text \<open>\<^verbatim>\<open>os.makedirs(name, exist_ok=True)\<close>. On the empty name \<^verbatim>\<open>mkdir('')\<close> fails with
  \<^verbatim>\<open>ENOENT\<close> and \<^verbatim>\<open>os.path.isdir('')\<close> is false, so FileNotFoundError is raised whatever
  the file system holds; on any other name the outcome is the file system's.\<close>

definition os_makedirs :: "'fs env \<Rightarrow> 'fs \<Rightarrow> pystr \<Rightarrow> error option \<times> 'fs" where
  "os_makedirs env fs name =
     (if name = [] then (Some FileNotFoundError, fs) else makedirs_io env fs name)"

text \<open>\<^verbatim>\<open>except IOError\<close>: \<^verbatim>\<open>IOError\<close> is \<^verbatim>\<open>OSError\<close>, which FileNotFoundError
  derives from.\<close>

fun is_IOError :: "error \<Rightarrow> bool" where
  "is_IOError OSError = True"
| "is_IOError FileNotFoundError = True"
| "is_IOError _ = False"

text \<open>\<^verbatim>\<open>sanitized_paths.append(p)\<close>, followed by the rest of the loop.\<close>

fun append_path :: "pystr \<Rightarrow> (error + pystr list) \<times> 'fs \<Rightarrow> (error + pystr list) \<times> 'fs" where
  "append_path p (Inr ps, fs) = (Inr (p # ps), fs)"
| "append_path p (Inl e, fs) = (Inl e, fs)"

text \<open>The loop of \<^verbatim>\<open>sanitize_and_copy_files\<close>, lines 42-59, from position \<open>index\<close> on.\<close>

fun sanitize_loop ::
  "'fs env \<Rightarrow> nat \<Rightarrow> pystr list \<Rightarrow> 'fs \<Rightarrow> (error + pystr list) \<times> 'fs" where
  "sanitize_loop env index [] fs = (Inr [], fs)"
| "sanitize_loop env index (image_path # rest) fs =
     (if \<not> isascii image_path then
        (let name = filter printable image_path;
             dir_name = filter printable (os_path_dirname image_path)
         in case os_makedirs env fs dir_name of
              (Some e, fs1) \<Rightarrow> (Inl e, fs1)
            | (None, fs1) \<Rightarrow>
                (let (basename, ext) =
                       (if snd (os_path_splitext (os_path_basename name)) = []
                        then ([], fst (os_path_splitext (os_path_basename name)))
                        else (fst (os_path_splitext (os_path_basename name)),
                              snd (os_path_splitext (os_path_basename name))));
                     sanitized_path = os_path_join dir_name (basename @ str_nat index @ ext)
                 in case copy_io env fs1 image_path sanitized_path of
                      (None, fs2) \<Rightarrow>
                        append_path sanitized_path (sanitize_loop env (Suc index) rest fs2)
                    | (Some e, fs2) \<Rightarrow>
                        if is_IOError e
                        then append_path image_path (sanitize_loop env (Suc index) rest fs2)
                        else (Inl e, fs2)))
      else append_path image_path (sanitize_loop env (Suc index) rest fs))"

definition sanitize_and_copy_files ::
  "'fs env \<Rightarrow> pystr list \<Rightarrow> 'fs \<Rightarrow> (error + pystr list) \<times> 'fs" where
  "sanitize_and_copy_files env paths fs = sanitize_loop env 0 paths fs"

record archive_entry =
  archive_path :: pystr
  extracted_images :: "pystr list"
  temp_dir :: pystr

record FileHandler =
  file_paths :: "pystr list"
  archive_info :: "archive_entry list"

definition archive_suffixes :: "pystr list" where
  "archive_suffixes =
     map ascii [''.cbr'', ''.cbz'', ''.zip'', ''.cbt'', ''.cb7'', ''.pdf'', ''.epub'']"

definition image_suffixes :: "pystr list" where
  "image_suffixes = map ascii [''.jpg'', ''.jpeg'', ''.png'', ''.webp'', ''.bmp'']"

text \<open>The loop of \<^verbatim>\<open>prepare_files\<close>, lines 17-35: \<open>all_image_paths\<close> is the local list,
  \<open>info\<close> is \<^verbatim>\<open>self.archive_info\<close>, which the loop extends in place and which keeps
  what was added to it when an exception ends the loop.\<close>

fun prepare_loop ::
  "'fs env \<Rightarrow> pystr list \<Rightarrow> pystr list \<Rightarrow> archive_entry list \<Rightarrow> 'fs \<Rightarrow>
   (error + pystr list) \<times> archive_entry list \<times> 'fs" where
  "prepare_loop env [] all_image_paths info fs = (Inr all_image_paths, info, fs)"
| "prepare_loop env (path # rest) all_image_paths info fs =
     (if endswith (lower path) archive_suffixes then
        (case mkdtemp_io env fs (os_path_dirname path) of
           (Inl e, fs1) \<Rightarrow> (Inl e, info, fs1)
         | (Inr tmp, fs1) \<Rightarrow>
             (case extract_archive env fs1 path tmp of
                (Inl e, fs2) \<Rightarrow> (Inl e, info, fs2)
              | (Inr extracted_files, fs2) \<Rightarrow>
                  (case sanitize_and_copy_files env
                          (filter (\<lambda>f. endswith (lower f) image_suffixes) extracted_files) fs2 of
                     (Inl e, fs3) \<Rightarrow> (Inl e, info, fs3)
                   | (Inr image_paths, fs3) \<Rightarrow>
                       prepare_loop env rest (all_image_paths @ image_paths)
                         (info @ [\<lparr>archive_path = path, extracted_images = image_paths,
                                    temp_dir = tmp\<rparr>]) fs3)))
      else
        (case sanitize_and_copy_files env [path] fs of
           (Inl e, fs1) \<Rightarrow> (Inl e, info, fs1)
         | (Inr [], fs1) \<Rightarrow> (Inl IndexError, info, fs1)
         | (Inr (p # _), fs1) \<Rightarrow> prepare_loop env rest (all_image_paths @ [p]) info fs1))"

definition prepare_files ::
  "'fs env \<Rightarrow> FileHandler \<Rightarrow> 'fs \<Rightarrow> (error + pystr list) \<times> FileHandler \<times> 'fs" where
  "prepare_files env self fs =
     (case prepare_loop env (file_paths self) [] (archive_info self) fs of
        (Inr all_image_paths, info, fs') \<Rightarrow>
          (Inr all_image_paths, self\<lparr>file_paths := all_image_paths, archive_info := info\<rparr>, fs')
      | (Inl e, info, fs') \<Rightarrow> (Inl e, self\<lparr>archive_info := info\<rparr>, fs'))"

section \<open>Observations on requests and traces\<close>

text \<open>A chapter reference of a batch as the loops need it: a dict that has an \<^verbatim>\<open>index\<close>.\<close>

fun chapter_ok :: "json \<Rightarrow> bool" where
  "chapter_ok (JObj kvs) = (map_of kvs ''index'' \<noteq> None)"
| "chapter_ok _ = False"

text \<open>The removal targets as \<^verbatim>\<open>run_remove\<close> needs them: a dict with both flags.\<close>

fun choices_ok :: "json \<Rightarrow> bool" where
  "choices_ok (JObj kvs) = (map_of kvs ''downloaded'' \<noteq> None \<and> map_of kvs ''translated'' \<noteq> None)"
| "choices_ok _ = False"

text \<open>\<^verbatim>\<open>chapter['index']\<close> of a chapter that has one.\<close>

definition index_of :: "json \<Rightarrow> json" where
  "index_of c = (case getitem c ''index'' of Inr i \<Rightarrow> i | Inl _ \<Rightarrow> JNull)"

text \<open>The chapter after \<^verbatim>\<open>chapter[k] = v\<close>.\<close>

definition assign :: "string \<Rightarrow> json \<Rightarrow> json \<Rightarrow> json" where
  "assign k v c = (case setitem c k v of Inr c' \<Rightarrow> c' | Inl _ \<Rightarrow> c)"

text \<open>A removal target as the \<^verbatim>\<open>if\<close> of \<^verbatim>\<open>run_remove\<close> reads it.\<close>

definition flag :: "json \<Rightarrow> string \<Rightarrow> bool" where
  "flag remove_choices k = (case getitem remove_choices k of Inr v \<Rightarrow> truthy v | Inl _ \<Rightarrow> False)"

text \<open>The cache entry an event writes, if it writes one.\<close>

fun write_of :: "event \<Rightarrow> ((json \<times> json \<times> string) \<times> string) option" where
  "write_of (CacheUpdate s i f v) = Some ((s, i, f), v)"
| "write_of _ = None"

text \<open>The broadcasts of a trace: group and message, in order.\<close>

fun sent :: "event \<Rightarrow> (string \<times> json) option" where
  "sent (GroupSend g m) = Some (g, m)"
| "sent _ = None"

definition broadcasts :: "event list \<Rightarrow> (string \<times> json) list" where
  "broadcasts evs = List.map_filter sent evs"

text \<open>A trace made of cache writes, then one broadcast, then one call that enqueues.\<close>

definition dispatched :: "event list \<Rightarrow> bool" where
  "dispatched evs =
     (case rev evs of
        a # g # ws \<Rightarrow> is_enqueue a \<and> is_group_send g \<and> list_all is_cache_update ws
      | _ \<Rightarrow> False)"

text \<open>What the loop of \<^verbatim>\<open>run_download_translate\<close> does on a chapter that has an index: the
  cache writes it makes and the chapter it leaves.\<close>

definition loading_writes :: "string \<Rightarrow> json \<Rightarrow> json \<Rightarrow> event list" where
  "loading_writes mid task c =
     CacheUpdate (JStr mid) (index_of c) ''download_status'' ''LOADING'' #
     (if task = JStr ''download_translate''
      then [CacheUpdate (JStr mid) (index_of c) ''translation_status'' ''LOADING''] else [])"

definition loading_mark :: "json \<Rightarrow> json \<Rightarrow> json" where
  "loading_mark task c =
     (if task = JStr ''download_translate''
      then assign ''translation_status'' (JStr ''LOADING'') (assign ''download_status'' (JStr ''LOADING'') c)
      else assign ''download_status'' (JStr ''LOADING'') c)"

text \<open>The same for the loop of \<^verbatim>\<open>run_remove\<close>.\<close>

definition removing_writes :: "string \<Rightarrow> json \<Rightarrow> json \<Rightarrow> event list" where
  "removing_writes mid remove_choices c =
     (if flag remove_choices ''downloaded''
      then [CacheUpdate (JStr mid) (index_of c) ''download_status'' ''REMOVING''] else []) @
     (if flag remove_choices ''translated''
      then [CacheUpdate (JStr mid) (index_of c) ''remove_status'' ''REMOVING''] else [])"

definition removing_mark :: "json \<Rightarrow> json \<Rightarrow> json" where
  "removing_mark remove_choices c =
     (let c1 = (if flag remove_choices ''downloaded''
                then assign ''download_status'' (JStr ''REMOVING'') c else c)
      in if flag remove_choices ''translated''
         then assign ''translation_status'' (JStr ''REMOVING'') c1 else c1)"

text \<open>Concrete inputs: a consumer connected for the series \<^verbatim>\<open>/abc\<close>, an encoding that drops
  the separators, a store that holds chapter 4 of the series, and an integer reader that
  knows the literal \<^verbatim>\<open>4\<close>.\<close>

definition series_abc :: DownloadTranslateConsumer where
  "series_abc = \<lparr>manhwa_id = ''/abc'', group_name = ''download_translate_abc''\<rparr>"

definition strip_slashes :: "json \<Rightarrow> string" where
  "strip_slashes x = (case x of JStr s \<Rightarrow> filter (\<lambda>c. c \<noteq> CHR ''/'') s | _ \<Rightarrow> [])"

definition store_abc :: store where
  "store_abc = Map.empty((JStr ''/abc'', 4) \<mapsto> \<lparr>download_status = READY, translation_status = NONE\<rparr>)"

definition digit4 :: "string \<Rightarrow> int option" where
  "digit4 s = (if s = ''4'' then Some 4 else None)"

section \<open>Auxiliary facts\<close>

subsection \<open>The trace of a computation\<close>

lemma bind_lift_Inr [simp]: "bind (lift (Inr x)) f = f x"
  by (cases "f x") (simp add: lift_def)

lemma bind_lift_Inl [simp]: "bind (lift (Inl e)) f = ([], Inl e)"
  by (simp add: lift_def)

lemma bind_ret [simp]: "bind (ret x) f = f x"
  by (cases "f x") (simp add: ret_def)

lemma bind_emit [simp]: "bind (emit ev) f = (ev # fst (f ()), snd (f ()))"
  by (cases "f ()") (simp add: emit_def)

lemma fst_emit [simp]: "fst (emit ev) = [ev]" and snd_emit [simp]: "snd (emit ev) = Inr ()"
  by (simp_all add: emit_def)

lemma fst_ret [simp]: "fst (ret x) = []" and snd_ret [simp]: "snd (ret x) = Inr x"
  by (simp_all add: ret_def)

lemma fst_lift [simp]: "fst (lift r) = []" and snd_lift [simp]: "snd (lift r) = r"
  by (simp_all add: lift_def)

lemma bind_ok: "m = (evs, Inr x) \<Longrightarrow> bind m f = (evs @ fst (f x), snd (f x))"
  by (cases "f x") simp

lemma fst_bind_cases:
  "fst (bind m f) = fst m \<or> (\<exists>x. snd m = Inr x \<and> fst (bind m f) = fst m @ fst (f x))"
  by (cases m; cases "snd m") (auto split: prod.splits)

lemma bind_trace_all:
  "list_all P (fst m) \<Longrightarrow> (\<And>x. snd m = Inr x \<Longrightarrow> list_all P (fst (f x))) \<Longrightarrow>
   list_all P (fst (bind m f))"
  using fst_bind_cases [of m f] by auto

lemma for_each_trace_all:
  "(\<And>c. c \<in> set cs \<Longrightarrow> list_all P (fst (body c))) \<Longrightarrow> list_all P (fst (for_each body cs))"
proof (induction cs)
  case Nil
  show ?case by simp
next
  case (Cons c cs)
  show ?case
    unfolding for_each.simps
    by (intro bind_trace_all) (simp_all add: Cons)
qed

lemma for_each_ok:
  "(\<And>c. c \<in> set cs \<Longrightarrow> body c = (w c, Inr (u c))) \<Longrightarrow>
   for_each body cs = (concat (map w cs), Inr (map u cs))"
  by (induction cs) (simp_all add: ret_def)

subsection \<open>The Status Cache after a trace\<close>

lemma cache_step_write_of:
  "cache_step cache ev = (case write_of ev of None \<Rightarrow> cache | Some (k, v) \<Rightarrow> cache(k \<mapsto> v))"
  by (cases ev) (simp_all add: update_cached_chapter_def)

lemma cache_after_Nil [simp]: "cache_after [] cache = cache"
  by (simp add: cache_after_def)

lemma cache_after_Cons [simp]: "cache_after (ev # evs) cache = cache_after evs (cache_step cache ev)"
  by (simp add: cache_after_def)

lemma cache_after_append [simp]:
  "cache_after (evs @ evs') cache = cache_after evs' (cache_after evs cache)"
  by (simp add: cache_after_def)

lemma cache_after_untouched:
  "list_all (\<lambda>ev. \<forall>v. write_of ev \<noteq> Some (k, v)) evs \<Longrightarrow> cache_after evs cache k = cache k"
  by (induction evs arbitrary: cache) (auto simp: cache_step_write_of split: option.splits)

lemma cache_after_written:
  "list_all (\<lambda>ev. \<forall>k' v'. write_of ev = Some (k', v') \<longrightarrow> v' = v) evs \<Longrightarrow>
   \<exists>ev\<in>set evs. write_of ev = Some (k, v) \<Longrightarrow> cache_after evs cache k = Some v"
proof (induction evs arbitrary: cache rule: rev_induct)
  case Nil
  then show ?case by simp
next
  case (snoc ev evs)
  show ?case
  proof (cases "write_of ev = Some (k, v)")
    case True
    then show ?thesis by (simp add: cache_step_write_of)
  next
    case False
    with snoc.prems have "\<exists>ev\<in>set evs. write_of ev = Some (k, v)" by auto
    moreover from snoc.prems have "list_all (\<lambda>ev. \<forall>k' v'. write_of ev = Some (k', v') \<longrightarrow> v' = v) evs"
      by simp
    ultimately have "cache_after evs cache k = Some v" by (rule snoc.IH[rotated])
    moreover have "\<forall>v'. write_of ev \<noteq> Some (k, v')"
    proof (intro allI notI)
      fix v' assume w: "write_of ev = Some (k, v')"
      with snoc.prems(1) have "v' = v" by (cases k) auto
      with w False show False by simp
    qed
    ultimately show ?thesis by (cases "write_of ev") (auto simp: cache_step_write_of)
  qed
qed

lemma cache_update_not_send: "is_cache_update ev \<Longrightarrow> \<not> is_group_send ev"
  by (cases ev) simp_all

lemma takeWhile_writes:
  "list_all is_cache_update ws \<Longrightarrow> takeWhile (\<lambda>ev. \<not> is_group_send ev) (ws @ GroupSend g m # rest) = ws"
  by (simp add: list_all_iff cache_update_not_send)

subsection \<open>Well-formed chapters and removal targets\<close>

lemma chapter_ok_cases:
  assumes "chapter_ok c"
  obtains kvs i where "c = JObj kvs" "map_of kvs ''index'' = Some i"
  using assms by (cases c) auto

lemma getitem_assign_same: "chapter_ok c \<Longrightarrow> getitem (assign k v c) k = Inr v"
  by (erule chapter_ok_cases) (simp add: assign_def update_conv')

lemma getitem_assign_other: "k' \<noteq> k \<Longrightarrow> getitem (assign k v c) k' = getitem c k'"
  by (cases c) (simp_all add: assign_def update_conv')

lemma chapter_ok_assign: "chapter_ok c \<Longrightarrow> chapter_ok (assign k v c)"
  by (erule chapter_ok_cases) (auto simp: assign_def update_conv')

lemma index_of_assign: "k \<noteq> ''index'' \<Longrightarrow> index_of (assign k v c) = index_of c"
  by (simp add: index_of_def getitem_assign_other)

lemma setitem_ok: "chapter_ok c \<Longrightarrow> setitem c k v = Inr (assign k v c)"
  by (erule chapter_ok_cases) (simp add: assign_def)

lemma getitem_index_ok: "chapter_ok c \<Longrightarrow> getitem c ''index'' = Inr (index_of c)"
  by (erule chapter_ok_cases) (simp add: index_of_def)

subsection \<open>Broadcasts and enqueued batches of a trace\<close>

lemma broadcasts_append [simp]: "broadcasts (xs @ ys) = broadcasts xs @ broadcasts ys"
  by (simp add: broadcasts_def List.map_filter_def)

lemma broadcasts_updates: "list_all is_cache_update ws \<Longrightarrow> broadcasts ws = []"
proof (induction ws)
  case Nil
  show ?case by (simp add: broadcasts_def)
next
  case (Cons ev ws)
  then show ?case by (cases ev) (simp_all add: broadcasts_def)
qed

lemma filter_enqueue_updates: "list_all is_cache_update ws \<Longrightarrow> filter is_enqueue ws = []"
proof (induction ws)
  case Nil
  show ?case by simp
next
  case (Cons ev ws)
  then show ?case by (cases ev) simp_all
qed

lemma choices_ok_cases:
  assumes "choices_ok rc"
  obtains d t where "getitem rc ''downloaded'' = Inr d" "getitem rc ''translated'' = Inr t"
  using assms by (cases rc) auto

subsection \<open>The batch loops on well-formed requests\<close>

lemma download_translate_body_ok:
  assumes "chapter_ok c"
  shows "download_translate_body mid task c = (loading_writes mid task c, Inr (loading_mark task c))"
proof -
  let ?c1 = "assign ''download_status'' (JStr ''LOADING'') c"
  have ok1: "chapter_ok ?c1" using assms by (rule chapter_ok_assign)
  have i1: "index_of ?c1 = index_of c" by (simp add: index_of_assign)
  show ?thesis
    by (simp add: download_translate_body_def setitem_ok [OF assms] setitem_ok [OF ok1]
        getitem_index_ok [OF ok1] getitem_index_ok [OF chapter_ok_assign [OF ok1]]
        index_of_assign loading_writes_def loading_mark_def ret_def)
qed

lemma run_download_translate_ok:
  assumes "list_all chapter_ok cs"
  shows "run_download_translate self task (JList cs) =
    (concat (map (loading_writes (manhwa_id self) task) cs) @
     [GroupSend (group_name self)
        (JObj [(''type'', JStr ''send_progress''),
               (''chapters'', JList (map (loading_mark task) cs)),
               (''progress'', JObj [(''current'', JInt 0), (''total'', JInt (int (length cs)))])]),
      DownloaderAppend (manhwa_id self) (group_name self) task (JList (map (loading_mark task) cs))],
     Inr ())"
proof -
  have "for_each (download_translate_body (manhwa_id self) task) cs =
      (concat (map (loading_writes (manhwa_id self) task) cs), Inr (map (loading_mark task) cs))"
    using assms by (intro for_each_ok download_translate_body_ok) (simp add: list_all_iff)
  then show ?thesis
    by (simp add: run_download_translate_def bind_ok)
qed

lemma loading_writes_are_updates: "list_all is_cache_update (concat (map (loading_writes mid task) cs))"
  by (induction cs) (simp_all add: loading_writes_def)

lemma loading_write_values:
  "list_all (\<lambda>ev. \<forall>k' v'. write_of ev = Some (k', v') \<longrightarrow> v' = ''LOADING'')
     (concat (map (loading_writes mid task) cs))"
  by (induction cs) (simp_all add: loading_writes_def)

lemma loading_writes_download:
  "c \<in> set cs \<Longrightarrow> \<exists>ev\<in>set (concat (map (loading_writes mid task) cs)).
     write_of ev = Some ((JStr mid, index_of c, ''download_status''), ''LOADING'')"
  by (auto simp: loading_writes_def intro!: bexI [of _ c])

lemma loading_writes_translation:
  "c \<in> set cs \<Longrightarrow> \<exists>ev\<in>set (concat (map (loading_writes mid (JStr ''download_translate'')) cs)).
     write_of ev = Some ((JStr mid, index_of c, ''translation_status''), ''LOADING'')"
  by (auto simp: loading_writes_def intro!: bexI [of _ c])

lemma loading_writes_no_translation:
  "task \<noteq> JStr ''download_translate'' \<Longrightarrow>
   list_all (\<lambda>ev. \<forall>v. write_of ev \<noteq> Some ((s, i, ''translation_status''), v))
     (concat (map (loading_writes mid task) cs))"
  by (induction cs) (simp_all add: loading_writes_def)

lemma loading_mark_fields:
  assumes "chapter_ok c"
  shows "index_of (loading_mark task c) = index_of c"
    and "getitem (loading_mark task c) ''download_status'' = Inr (JStr ''LOADING'')"
    and "task = JStr ''download_translate'' \<Longrightarrow>
         getitem (loading_mark task c) ''translation_status'' = Inr (JStr ''LOADING'')"
    and "task \<noteq> JStr ''download_translate'' \<Longrightarrow>
         getitem (loading_mark task c) ''translation_status'' = getitem c ''translation_status''"
  using assms
  by (simp_all add: loading_mark_def index_of_assign getitem_assign_same getitem_assign_other
      chapter_ok_assign)

lemma remove_body_ok:
  assumes "chapter_ok c" and "choices_ok rc"
  shows "remove_body mid rc c = (removing_writes mid rc c, Inr (removing_mark rc c))"
proof -
  from assms(2) obtain d t where
    d: "getitem rc ''downloaded'' = Inr d" and t: "getitem rc ''translated'' = Inr t"
    by (rule choices_ok_cases)
  let ?c1 = "assign ''download_status'' (JStr ''REMOVING'') c"
  have ok1: "chapter_ok ?c1" using assms(1) by (rule chapter_ok_assign)
  have fd: "flag rc ''downloaded'' = truthy d" and ft: "flag rc ''translated'' = truthy t"
    by (simp_all add: flag_def d t)
  show ?thesis
    by (simp add: remove_body_def d t fd ft setitem_ok [OF assms(1)] setitem_ok [OF ok1]
        getitem_index_ok [OF assms(1)] getitem_index_ok [OF ok1]
        getitem_index_ok [OF chapter_ok_assign [OF assms(1)]]
        getitem_index_ok [OF chapter_ok_assign [OF ok1]]
        index_of_assign removing_writes_def removing_mark_def ret_def)
qed

lemma run_remove_ok:
  assumes "list_all chapter_ok cs" and "choices_ok rc"
  shows "run_remove self (JList cs) rc =
    (concat (map (removing_writes (manhwa_id self) rc) cs) @
     [GroupSend (group_name self)
        (JObj [(''type'', JStr ''send_progress''),
               (''chapters'', JList (map (removing_mark rc) cs)),
               (''progress'', JObj [])]),
      CleanerAppend (manhwa_id self) (group_name self) (JList (map (removing_mark rc) cs)) rc],
     Inr ())"
proof -
  have "for_each (remove_body (manhwa_id self) rc) cs =
      (concat (map (removing_writes (manhwa_id self) rc) cs), Inr (map (removing_mark rc) cs))"
    using assms by (intro for_each_ok remove_body_ok) (simp_all add: list_all_iff)
  then show ?thesis
    by (simp add: run_remove_def bind_ok)
qed

lemma removing_writes_are_updates:
  "list_all is_cache_update (concat (map (removing_writes mid rc) cs))"
  by (induction cs) (simp_all add: removing_writes_def)

lemma removing_writes_no_translation:
  "list_all (\<lambda>ev. \<forall>v. write_of ev \<noteq> Some ((s, i, ''translation_status''), v))
     (concat (map (removing_writes mid rc) cs))"
  by (induction cs) (simp_all add: removing_writes_def)

subsection \<open>The shape of every trace\<close>

lemma download_translate_body_trace:
  "list_all is_cache_update (fst (download_translate_body mid task c))"
  unfolding download_translate_body_def
  by (intro bind_trace_all) (simp_all split: if_splits add: bind_trace_all)

lemma remove_body_trace:
  "list_all is_cache_update (fst (remove_body mid rc c))"
  unfolding remove_body_def
  by (intro bind_trace_all) (simp_all split: if_splits add: bind_trace_all)

lemma dispatched_snoc2:
  "list_all is_cache_update ws \<Longrightarrow> is_group_send g \<Longrightarrow> is_enqueue a \<Longrightarrow> dispatched (ws @ [g, a])"
  by (simp add: dispatched_def)

lemma run_download_translate_shape:
  "case snd (run_download_translate self task chapters) of
     Inr _ \<Rightarrow> dispatched (fst (run_download_translate self task chapters))
   | Inl _ \<Rightarrow> list_all is_cache_update (fst (run_download_translate self task chapters))"
proof (cases "py_len chapters")
  case (Inl e)
  then show ?thesis by (simp add: run_download_translate_def)
next
  case len: (Inr total)
  show ?thesis
  proof (cases "py_iter chapters")
    case (Inl e)
    then show ?thesis by (simp add: run_download_translate_def len)
  next
    case it: (Inr items)
    obtain ws res where loop: "for_each (download_translate_body (manhwa_id self) task) items = (ws, res)"
      by (cases "for_each (download_translate_body (manhwa_id self) task) items")
    have "list_all is_cache_update (fst (for_each (download_translate_body (manhwa_id self) task) items))"
      by (rule for_each_trace_all) (rule download_translate_body_trace)
    then have ws: "list_all is_cache_update ws" by (simp add: loop)
    show ?thesis
    proof (cases res)
      case (Inl e)
      then show ?thesis by (simp add: run_download_translate_def len it loop ws)
    next
      case (Inr items')
      then show ?thesis
        by (simp add: run_download_translate_def len it loop dispatched_def ws)
    qed
  qed
qed

lemma run_remove_shape:
  "case snd (run_remove self chapters rc) of
     Inr _ \<Rightarrow> dispatched (fst (run_remove self chapters rc))
   | Inl _ \<Rightarrow> list_all is_cache_update (fst (run_remove self chapters rc))"
proof (cases "py_iter chapters")
  case (Inl e)
  then show ?thesis by (simp add: run_remove_def)
next
  case it: (Inr items)
  obtain ws res where loop: "for_each (remove_body (manhwa_id self) rc) items = (ws, res)"
    by (cases "for_each (remove_body (manhwa_id self) rc) items")
  have "list_all is_cache_update (fst (for_each (remove_body (manhwa_id self) rc) items))"
    by (rule for_each_trace_all) (rule remove_body_trace)
  then have ws: "list_all is_cache_update ws" by (simp add: loop)
  show ?thesis
  proof (cases res)
    case (Inl e)
    then show ?thesis by (simp add: run_remove_def it loop ws)
  next
    case (Inr items')
    then show ?thesis
      by (simp add: run_remove_def it loop dispatched_def ws)
  qed
qed

subsection \<open>The paths the sanitizer returns\<close>

lemma append_path_Inr:
  "fst (append_path p r) = Inr ps \<longleftrightarrow> (\<exists>ps'. fst r = Inr ps' \<and> ps = p # ps')"
  by (cases r; cases "fst r") auto

lemma sanitize_loop_keeps_ascii:
  "fst (sanitize_loop env index paths fs) = Inr ps \<Longrightarrow>
   length ps = length paths \<and> (\<forall>i<length paths. isascii (paths ! i) \<longrightarrow> ps ! i = paths ! i)"
proof (induction paths arbitrary: index fs ps)
  case Nil
  then show ?case by simp
next
  case (Cons image_path rest)
  from Cons.prems obtain p ps' index' fs' where
    ps: "ps = p # ps'" and rest: "fst (sanitize_loop env index' rest fs') = Inr ps'"
    and p: "isascii image_path \<longrightarrow> p = image_path"
    by (auto simp: Let_def append_path_Inr split: prod.splits option.splits if_splits)
  from Cons.IH [OF rest] have
    len: "length ps' = length rest" and
    keep: "\<forall>i<length rest. isascii (rest ! i) \<longrightarrow> ps' ! i = rest ! i"
    by simp_all
  show ?case
  proof (intro conjI allI impI)
    show "length ps = length (image_path # rest)" by (simp add: ps len)
  next
    fix i assume "i < length (image_path # rest)" and "isascii ((image_path # rest) ! i)"
    then show "ps ! i = (image_path # rest) ! i"
      using p keep by (cases i) (simp_all add: ps)
  qed
qed

lemma sanitize_loop_ascii_total:
  "list_all isascii paths \<Longrightarrow> sanitize_loop env index paths fs = (Inr paths, fs)"
  by (induction paths arbitrary: index) simp_all

lemma sanitize_makedirs_failure:
  "\<not> isascii p \<Longrightarrow>
   os_makedirs env fs (filter printable (os_path_dirname p)) = (Some e, fs') \<Longrightarrow>
   sanitize_and_copy_files env (p # rest) fs = (Inl e, fs')"
  by (simp add: sanitize_and_copy_files_def Let_def)

subsection \<open>Unfolding the model on concrete inputs\<close>

lemmas run_defs = run_remove_def remove_body_def run_download_translate_def download_translate_body_def
  DownloadTranslateConsumer_receive_def series_abc_def cache_at_broadcast_def update_cached_chapter_def
  broadcasts_def ret_def emit_def lift_def

lemmas path_defs = isascii_def os_path_dirname_def os_path_basename_def sep_def extsep_def
  printable_def os_makedirs_def sanitize_and_copy_files_def

lemmas eval_defs = run_defs index_of_def strip_slashes_def store_abc_def group_of_def
  QtConsumer_receive_def connect_def store_after_def dispatched_def

section \<open>The claims\<close>

subsection \<open>C1: a removal of translated artifacts and the cache entry of \<^verbatim>\<open>translation_status\<close>\<close>

text \<open>
  C1 says that a removal request whose targets include the translated artifacts sets the
  \<^verbatim>\<open>translation_status\<close> entry of each listed chapter to \<^verbatim>\<open>REMOVING\<close> in the Status Cache
  before the immediate broadcast. Line 143 sets the field of the chapter that is broadcast,
  but line 144 writes the cache under the field name \<^verbatim>\<open>remove_status\<close>. On the removal of
  the translated artifacts of chapter 3 of \<^verbatim>\<open>/abc\<close>, with an empty cache, the trace is one
  cache write under \<^verbatim>\<open>remove_status\<close>, the broadcast and the call of the cleaner, and when
  the broadcast is published the cache has no \<^verbatim>\<open>translation_status\<close> entry for the chapter.
\<close>

theorem remove_translated_writes_remove_status:
  "run_remove series_abc (JList [JObj [(''index'', JInt 3)]])
       (JObj [(''downloaded'', JBool False), (''translated'', JBool True)]) =
     ([CacheUpdate (JStr ''/abc'') (JInt 3) ''remove_status'' ''REMOVING'',
       GroupSend ''download_translate_abc''
         (JObj [(''type'', JStr ''send_progress''),
                (''chapters'', JList [JObj [(''index'', JInt 3),
                                            (''translation_status'', JStr ''REMOVING'')]]),
                (''progress'', JObj [])]),
       CleanerAppend ''/abc'' ''download_translate_abc''
         (JList [JObj [(''index'', JInt 3), (''translation_status'', JStr ''REMOVING'')]])
         (JObj [(''downloaded'', JBool False), (''translated'', JBool True)])],
      Inr ()) \<and>
   cache_at_broadcast
     (fst (run_remove series_abc (JList [JObj [(''index'', JInt 3)]])
        (JObj [(''downloaded'', JBool False), (''translated'', JBool True)])))
     Map.empty (JStr ''/abc'', JInt 3, ''translation_status'') = None"
  by (simp add: run_defs)

subsection \<open>C2: a \<^verbatim>\<open>translate\<close> batch\<close>

text \<open>
  C2 says that a batch of kind \<^verbatim>\<open>translate\<close> sets the \<^verbatim>\<open>translation_status\<close> of each listed
  chapter to \<^verbatim>\<open>LOADING\<close> in the Status Cache before the immediate Progress Message. It does
  not: line 122 writes \<^verbatim>\<open>translation_status\<close> for the kind \<^verbatim>\<open>download_translate\<close> only. For
  chapter 1 of \<^verbatim>\<open>/abc\<close> and an empty cache, the entry is not \<^verbatim>\<open>LOADING\<close> when the message is
  published.
\<close>

theorem translate_batch_counterexample:
  "\<not> cache_at_broadcast
       (fst (run_download_translate series_abc (JStr ''translate'')
          (JList [JObj [(''index'', JInt 1)]])))
       Map.empty (JStr ''/abc'', JInt 1, ''translation_status'') = Some ''LOADING''"
  by (simp add: run_defs)

text \<open>
  C2 as amended: for every batch of kind \<^verbatim>\<open>translate\<close> whose chapters all have an index, the
  call returns, and when the one immediate Progress Message is published the cache holds
  \<^verbatim>\<open>LOADING\<close> under \<^verbatim>\<open>download_status\<close> for every listed chapter, while every
  \<^verbatim>\<open>translation_status\<close> entry is what it was before the call.
\<close>

theorem translate_batch_marks_download_only:
  assumes "list_all chapter_ok cs"
  shows "(let r = run_download_translate self (JStr ''translate'') (JList cs) in
      snd r = Inr () \<and>
      (\<forall>c\<in>set cs.
         cache_at_broadcast (fst r) cache (JStr (manhwa_id self), index_of c, ''download_status'')
           = Some ''LOADING'') \<and>
      (\<forall>s i. cache_at_broadcast (fst r) cache (s, i, ''translation_status'')
              = cache (s, i, ''translation_status'')) \<and>
      length (broadcasts (fst r)) = 1)"
proof -
  let ?task = "JStr ''translate''"
  let ?r = "run_download_translate self ?task (JList cs)"
  let ?ws = "concat (map (loading_writes (manhwa_id self) ?task) cs)"
  note run = run_download_translate_ok [OF assms, of self ?task]
  have upd: "list_all is_cache_update ?ws" by (rule loading_writes_are_updates)
  have at: "cache_at_broadcast (fst ?r) cache = cache_after ?ws cache"
    by (simp add: run cache_at_broadcast_def takeWhile_writes [OF upd])
  have s: "snd ?r = Inr ()" by (simp add: run)
  have d: "cache_at_broadcast (fst ?r) cache (JStr (manhwa_id self), index_of c, ''download_status'')
      = Some ''LOADING''" if "c \<in> set cs" for c
    unfolding at
    by (rule cache_after_written [OF loading_write_values loading_writes_download [OF that]])
  have t: "cache_at_broadcast (fst ?r) cache (s, i, ''translation_status'')
      = cache (s, i, ''translation_status'')" for s i
    unfolding at
    by (rule cache_after_untouched [OF loading_writes_no_translation]) simp
  have b: "length (broadcasts (fst ?r)) = 1"
    by (simp add: run broadcasts_updates [OF upd]) (simp add: broadcasts_def)
  show ?thesis
    unfolding Let_def by (intro conjI ballI allI s d t b)
qed

text \<open>Witness of C2 as amended: chapter 1 of \<^verbatim>\<open>/abc\<close>, on an empty cache.\<close>

theorem translate_batch_marks_download_only_witness:
  "list_all chapter_ok [JObj [(''index'', JInt 1)]] \<and>
   cache_at_broadcast (fst (run_download_translate series_abc (JStr ''translate'')
       (JList [JObj [(''index'', JInt 1)]]))) Map.empty
     (JStr ''/abc'', JInt 1, ''download_status'') = Some ''LOADING'' \<and>
   cache_at_broadcast (fst (run_download_translate series_abc (JStr ''translate'')
       (JList [JObj [(''index'', JInt 1)]]))) Map.empty
     (JStr ''/abc'', JInt 1, ''translation_status'') = None"
proof -
  have h: "list_all chapter_ok [JObj [(''index'', JInt 1)]]"
    by simp
  show ?thesis
    using h translate_batch_marks_download_only [OF h, of series_abc Map.empty]
    by (simp add: eval_defs)
qed

subsection \<open>C3: a message of unknown kind\<close>

text \<open>
  C3 says that a message whose kind is none of \<^verbatim>\<open>download\<close>, \<^verbatim>\<open>download_translate\<close>,
  \<^verbatim>\<open>translate\<close> and \<^verbatim>\<open>remove\<close> is rejected: no cache entry written, no broadcast, nothing
  enqueued. \<^verbatim>\<open>receive\<close> tests for \<^verbatim>\<open>remove\<close> only and hands every other kind to
  \<^verbatim>\<open>run_download_translate\<close>: for the kind \<^verbatim>\<open>frobnicate\<close> and chapter 1 of \<^verbatim>\<open>/abc\<close> the
  trace is a cache write, a broadcast and a call of the downloader, and the call returns.
\<close>

theorem unknown_task_counterexample:
  "DownloadTranslateConsumer_receive series_abc
       (JObj [(''task'', JStr ''frobnicate''), (''chapters'', JList [JObj [(''index'', JInt 1)]])]) =
     ([CacheUpdate (JStr ''/abc'') (JInt 1) ''download_status'' ''LOADING'',
       GroupSend ''download_translate_abc''
         (JObj [(''type'', JStr ''send_progress''),
                (''chapters'', JList [JObj [(''index'', JInt 1),
                                            (''download_status'', JStr ''LOADING'')]]),
                (''progress'', JObj [(''current'', JInt 0), (''total'', JInt 1)])]),
       DownloaderAppend ''/abc'' ''download_translate_abc'' (JStr ''frobnicate'')
         (JList [JObj [(''index'', JInt 1), (''download_status'', JStr ''LOADING'')]])],
      Inr ()) \<and>
   fst (DownloadTranslateConsumer_receive series_abc
       (JObj [(''task'', JStr ''frobnicate''), (''chapters'', JList [JObj [(''index'', JInt 1)]])]))
     \<noteq> []"
  by (simp add: run_defs)

text \<open>
  C3 as amended: a message of unknown kind whose chapters all have an index is not rejected
  but handled by \<^verbatim>\<open>run_download_translate\<close> under the kind it names: the call returns, the
  cache holds \<^verbatim>\<open>LOADING\<close> under \<^verbatim>\<open>download_status\<close> for every listed chapter, one message is
  broadcast, and the batch is appended once to the downloader's queue under that kind.
\<close>

theorem unknown_task_runs_as_download:
  assumes "getitem data ''task'' = Inr task"
    and "task \<notin> set [JStr ''download'', JStr ''download_translate'', JStr ''translate'', JStr ''remove'']"
    and "getitem data ''chapters'' = Inr (JList cs)"
    and "list_all chapter_ok cs"
  shows "(let r = DownloadTranslateConsumer_receive self data in
      r = run_download_translate self task (JList cs) \<and>
      snd r = Inr () \<and>
      (\<forall>c\<in>set cs.
         cache_after (fst r) cache (JStr (manhwa_id self), index_of c, ''download_status'')
           = Some ''LOADING'') \<and>
      length (broadcasts (fst r)) = 1 \<and>
      (\<exists>cs'. filter is_enqueue (fst r) =
         [DownloaderAppend (manhwa_id self) (group_name self) task (JList cs')]))"
proof -
  let ?r = "DownloadTranslateConsumer_receive self data"
  let ?ws = "concat (map (loading_writes (manhwa_id self) task) cs)"
  have recv: "?r = run_download_translate self task (JList cs)"
    using assms(1-3) by (simp add: DownloadTranslateConsumer_receive_def)
  note run = run_download_translate_ok [OF assms(4), of self task]
  have upd: "list_all is_cache_update ?ws" by (rule loading_writes_are_updates)
  have s: "snd ?r = Inr ()" by (simp add: recv run)
  have d: "cache_after (fst ?r) cache (JStr (manhwa_id self), index_of c, ''download_status'')
      = Some ''LOADING''" if "c \<in> set cs" for c
  proof -
    have "cache_after (fst ?r) cache = cache_after ?ws cache"
      by (simp add: recv run)
    then show ?thesis
      by (simp add: cache_after_written [OF loading_write_values loading_writes_download [OF that]])
  qed
  have b: "length (broadcasts (fst ?r)) = 1"
    by (simp add: recv run broadcasts_updates [OF upd]) (simp add: broadcasts_def)
  have q: "filter is_enqueue (fst ?r) =
      [DownloaderAppend (manhwa_id self) (group_name self) task (JList (map (loading_mark task) cs))]"
    by (simp add: recv run filter_enqueue_updates [OF upd])
  show ?thesis
    unfolding Let_def
    by (intro conjI ballI exI [where x = "map (loading_mark task) cs"] recv s d b q)
qed

text \<open>Witness of C3 as amended: the kind \<^verbatim>\<open>frobnicate\<close>, chapter 1 of \<^verbatim>\<open>/abc\<close>.\<close>

theorem unknown_task_runs_as_download_witness:
  "JStr ''frobnicate''
     \<notin> set [JStr ''download'', JStr ''download_translate'', JStr ''translate'', JStr ''remove''] \<and>
   filter is_enqueue (fst (DownloadTranslateConsumer_receive series_abc
       (JObj [(''task'', JStr ''frobnicate''),
              (''chapters'', JList [JObj [(''index'', JInt 1)]])]))) =
     [DownloaderAppend ''/abc'' ''download_translate_abc'' (JStr ''frobnicate'')
        (JList [JObj [(''index'', JInt 1), (''download_status'', JStr ''LOADING'')]])]"
proof -
  let ?data = "JObj [(''task'', JStr ''frobnicate''),
                     (''chapters'', JList [JObj [(''index'', JInt 1)]])]"
  have t: "getitem ?data ''task'' = Inr (JStr ''frobnicate'')" by simp
  have u: "JStr ''frobnicate''
     \<notin> set [JStr ''download'', JStr ''download_translate'', JStr ''translate'', JStr ''remove'']"
    by simp
  have c: "getitem ?data ''chapters'' = Inr (JList [JObj [(''index'', JInt 1)]])" by simp
  have h: "list_all chapter_ok [JObj [(''index'', JInt 1)]]" by simp
  show ?thesis
    using u unknown_task_runs_as_download [OF t u c h, of series_abc Map.empty]
    by (simp add: eval_defs)
qed

subsection \<open>C4: a \<^verbatim>\<open>download_translate\<close> batch\<close>

text \<open>
  C4: for every batch of kind \<^verbatim>\<open>download_translate\<close> whose chapters all have an index (the
  empty batch included), the call returns; the cache holds \<^verbatim>\<open>LOADING\<close> under both
  \<^verbatim>\<open>download_status\<close> and \<^verbatim>\<open>translation_status\<close> for every listed chapter; exactly one
  message is broadcast, to the group of the consumer; its progress counter is
  \<^verbatim>\<open>{current: 0, total: n}\<close> with \<open>n\<close> the number of chapters of the batch; and its chapter
  list holds, in order, the chapters of the batch with both fields set to \<^verbatim>\<open>LOADING\<close>.
\<close>

theorem download_translate_batch_loading:
  assumes "list_all chapter_ok cs"
  shows
    "(let r = run_download_translate self (JStr ''download_translate'') (JList cs) in
      snd r = Inr () \<and>
      (\<forall>c\<in>set cs.
         cache_after (fst r) cache (JStr (manhwa_id self), index_of c, ''download_status'')
           = Some ''LOADING'' \<and>
         cache_after (fst r) cache (JStr (manhwa_id self), index_of c, ''translation_status'')
           = Some ''LOADING'') \<and>
      (\<exists>cs'. broadcasts (fst r) =
           [(group_name self,
             JObj [(''type'', JStr ''send_progress''),
                   (''chapters'', JList cs'),
                   (''progress'', JObj [(''current'', JInt 0),
                                        (''total'', JInt (int (length cs)))])])] \<and>
         list_all2 (\<lambda>c c'. index_of c' = index_of c \<and>
                      getitem c' ''download_status'' = Inr (JStr ''LOADING'') \<and>
                      getitem c' ''translation_status'' = Inr (JStr ''LOADING'')) cs cs'))"
proof -
  let ?task = "JStr ''download_translate''"
  let ?ws = "concat (map (loading_writes (manhwa_id self) ?task) cs)"
  let ?cs' = "map (loading_mark ?task) cs"
  note run = run_download_translate_ok [OF assms, of self ?task]
  have upd: "list_all is_cache_update ?ws" by (rule loading_writes_are_updates)
  have cache: "cache_after (fst (run_download_translate self ?task (JList cs))) cache k
      = cache_after ?ws cache k" for k
    by (simp add: run)
  have d: "cache_after ?ws cache (JStr (manhwa_id self), index_of c, ''download_status'')
      = Some ''LOADING''" if "c \<in> set cs" for c
    by (rule cache_after_written [OF loading_write_values loading_writes_download [OF that]])
  have t: "cache_after ?ws cache (JStr (manhwa_id self), index_of c, ''translation_status'')
      = Some ''LOADING''" if "c \<in> set cs" for c
    by (rule cache_after_written [OF loading_write_values loading_writes_translation [OF that]])
  have b: "broadcasts (fst (run_download_translate self ?task (JList cs))) =
      [(group_name self,
        JObj [(''type'', JStr ''send_progress''), (''chapters'', JList ?cs'),
              (''progress'', JObj [(''current'', JInt 0), (''total'', JInt (int (length cs)))])])]"
    by (simp add: run broadcasts_updates [OF upd]) (simp add: broadcasts_def)
  have m: "list_all2 (\<lambda>c c'. index_of c' = index_of c \<and>
                      getitem c' ''download_status'' = Inr (JStr ''LOADING'') \<and>
                      getitem c' ''translation_status'' = Inr (JStr ''LOADING'')) cs ?cs'"
    using assms by (simp add: list_all2_map2 list_all_iff list.rel_refl_strong loading_mark_fields)
  show ?thesis
    unfolding Let_def
    using b m by (auto simp: cache d t run)
qed

text \<open>Witness of C4: the scenario of the specification, chapters 1 and 2 of \<^verbatim>\<open>/abc\<close>.\<close>

theorem download_translate_batch_loading_witness:
  "list_all chapter_ok [JObj [(''index'', JInt 1)], JObj [(''index'', JInt 2)]] \<and>
   broadcasts (fst (run_download_translate series_abc (JStr ''download_translate'')
       (JList [JObj [(''index'', JInt 1)], JObj [(''index'', JInt 2)]]))) =
     [(''download_translate_abc'',
       JObj [(''type'', JStr ''send_progress''),
             (''chapters'',
              JList [JObj [(''index'', JInt 1), (''download_status'', JStr ''LOADING''),
                           (''translation_status'', JStr ''LOADING'')],
                     JObj [(''index'', JInt 2), (''download_status'', JStr ''LOADING''),
                           (''translation_status'', JStr ''LOADING'')]]),
             (''progress'', JObj [(''current'', JInt 0), (''total'', JInt 2)])])] \<and>
   cache_after (fst (run_download_translate series_abc (JStr ''download_translate'')
       (JList [JObj [(''index'', JInt 1)], JObj [(''index'', JInt 2)]]))) Map.empty
     (JStr ''/abc'', JInt 2, ''translation_status'') = Some ''LOADING''"
proof -
  have h: "list_all chapter_ok [JObj [(''index'', JInt 1)], JObj [(''index'', JInt 2)]]"
    by simp
  show ?thesis
    using h download_translate_batch_loading [OF h, of series_abc Map.empty]
    by (simp add: eval_defs)
qed

subsection \<open>C5: the group of the translation-ready broadcast\<close>

text \<open>
  C5: let a \<^verbatim>\<open>DownloadTranslateConsumer\<close> be connected for a series, and let a
  translation-ready message carry the identifier of that series (the \<^verbatim>\<open>manhwa_id\<close> of the
  consumer) as its \<^verbatim>\<open>toonkor_id\<close>. When \<^verbatim>\<open>QtConsumer.receive\<close> completes on the message, the
  one group it has published to is the \<^verbatim>\<open>group_name\<close> of the consumer, which the consumer
  joined on connect. This holds for every \<^verbatim>\<open>encode_name\<close>.
\<close>

theorem translation_ready_reaches_series_group:
  assumes "snd (connect encode_name channel_name url_id) = Inr self"
    and "getitem data ''toonkor_id'' = Inr (JStr (manhwa_id self))"
    and "snd (QtConsumer_receive encode_name int_of_str st data) = Inr ()"
  shows "map fst (broadcasts (fst (QtConsumer_receive encode_name int_of_str st data)))
           = [group_name self] \<and>
         GroupAdd (group_name self) channel_name
           \<in> set (fst (connect encode_name channel_name url_id))"
proof -
  have self: "self = \<lparr>manhwa_id = ''/'' @ url_id,
                      group_name = group_of encode_name (JStr (''/'' @ url_id))\<rparr>"
    using assms(1) by (simp add: connect_def Let_def)
  have joined: "GroupAdd (group_name self) channel_name
      \<in> set (fst (connect encode_name channel_name url_id))"
    by (simp add: connect_def Let_def self)
  have g: "group_of encode_name (JStr (manhwa_id self)) = group_name self"
    by (simp add: self)
  have "map fst (broadcasts (fst (QtConsumer_receive encode_name int_of_str st data)))
      = [group_of encode_name (JStr (manhwa_id self))]"
  proof (cases "getitem data ''chapter''")
    case (Inl e)
    with assms(3) show ?thesis by (simp add: QtConsumer_receive_def assms(2))
  next
    case ch: (Inr ch)
    show ?thesis
    proof (cases "py_int int_of_str ch")
      case (Inl e)
      with assms(3) show ?thesis by (simp add: QtConsumer_receive_def assms(2) ch)
    next
      case n: (Inr num)
      show ?thesis
      proof (cases "st (JStr (manhwa_id self), num)")
        case None
        with assms(3) show ?thesis by (simp add: QtConsumer_receive_def assms(2) ch n)
      next
        case row: (Some row)
        show ?thesis
        proof (cases "getitem data ''progress''")
          case (Inl e)
          with assms(3) show ?thesis by (simp add: QtConsumer_receive_def assms(2) ch n row)
        next
          case (Inr progress)
          then show ?thesis
            by (simp add: QtConsumer_receive_def assms(2) ch n row broadcasts_def)
        qed
      qed
    qed
  qed
  with g joined show ?thesis by simp
qed

text \<open>Witness of C5: the series \<^verbatim>\<open>/abc\<close>, its chapter 4 in the store.\<close>

theorem translation_ready_reaches_series_group_witness:
  "map fst (broadcasts (fst (QtConsumer_receive strip_slashes (\<lambda>s. None) store_abc
       (JObj [(''toonkor_id'', JStr ''/abc''), (''chapter'', JInt 4),
              (''progress'', JObj [])])))) = [''download_translate_abc''] \<and>
   fst (connect strip_slashes ''channel.1'' ''abc'') =
     [GroupAdd ''download_translate_abc'' ''channel.1'', Accept]"
proof -
  let ?data = "JObj [(''toonkor_id'', JStr ''/abc''), (''chapter'', JInt 4),
                     (''progress'', JObj [])]"
  let ?self = "\<lparr>manhwa_id = ''/abc'', group_name = ''download_translate_abc''\<rparr>"
  have a: "snd (connect strip_slashes ''channel.1'' ''abc'') = Inr ?self"
    by (simp add: eval_defs)
  have b: "getitem ?data ''toonkor_id'' = Inr (JStr (manhwa_id ?self))" by simp
  have c: "snd (QtConsumer_receive strip_slashes (\<lambda>s. None) store_abc ?data) = Inr ()"
    by (simp add: eval_defs)
  show ?thesis
    using translation_ready_reaches_series_group [OF a b c]
    by (simp add: eval_defs)
qed

subsection \<open>C6: the translation-ready short circuit\<close>

text \<open>
  C6: for every translation-ready message (a dict with \<^verbatim>\<open>toonkor_id\<close>, a \<^verbatim>\<open>chapter\<close> that
  \<^verbatim>\<open>int\<close> accepts, and \<^verbatim>\<open>progress\<close>) that names a chapter of the store,
  \<^verbatim>\<open>QtConsumer.receive\<close> returns; afterwards the row of the chapter in the store and the
  cache entry of the chapter both have \<^verbatim>\<open>translation_status\<close> \<^verbatim>\<open>READY\<close>; exactly one message
  is broadcast, for that chapter, to the group of the series; and nothing is appended to the
  queue of the downloader or of the cleaner.
\<close>

theorem translation_ready_short_circuit:
  assumes "getitem data ''toonkor_id'' = Inr toonkor_id"
    and "getitem data ''chapter'' = Inr ch"
    and "py_int int_of_str ch = Inr chapter"
    and "st (toonkor_id, chapter) = Some row"
    and "getitem data ''progress'' = Inr progress"
  shows "(let r = QtConsumer_receive encode_name int_of_str st data in
      snd r = Inr () \<and>
      map_option translation_status (store_after (fst r) st (toonkor_id, chapter)) = Some READY \<and>
      cache_after (fst r) cache (toonkor_id, JInt chapter, ''translation_status'') = Some ''READY'' \<and>
      broadcasts (fst r) =
        [(group_of encode_name toonkor_id,
          JObj [(''type'', JStr ''send_progress''),
                (''chapters'', JList [JObj [(''index'', JInt chapter),
                                            (''status'', JStr ''Translated'')]]),
                (''progress'', progress)])] \<and>
      filter is_enqueue (fst r) = [])"
proof -
  have run: "QtConsumer_receive encode_name int_of_str st data =
      ([ChapterSave toonkor_id chapter (row\<lparr>translation_status := READY\<rparr>),
        CacheUpdate toonkor_id (JInt chapter) ''translation_status'' ''READY'',
        GroupSend (group_of encode_name toonkor_id)
          (JObj [(''type'', JStr ''send_progress''),
                 (''chapters'', JList [JObj [(''index'', JInt chapter),
                                             (''status'', JStr ''Translated'')]]),
                 (''progress'', progress)])],
       Inr ())"
    by (simp add: QtConsumer_receive_def assms)
  show ?thesis
    unfolding Let_def run
    by (simp add: store_after_def update_cached_chapter_def broadcasts_def)
qed

text \<open>Witness of C6: chapter \<^verbatim>\<open>"4"\<close> of \<^verbatim>\<open>/abc\<close>, which the store holds.\<close>

theorem translation_ready_short_circuit_witness:
  "store_abc (JStr ''/abc'', 4) = Some \<lparr>download_status = READY, translation_status = NONE\<rparr> \<and>
   map_option translation_status
     (store_after (fst (QtConsumer_receive strip_slashes digit4 store_abc
        (JObj [(''toonkor_id'', JStr ''/abc''), (''chapter'', JStr ''4''),
               (''progress'', JObj [(''current'', JInt 1)])]))) store_abc (JStr ''/abc'', 4))
     = Some READY \<and>
   cache_after (fst (QtConsumer_receive strip_slashes digit4 store_abc
        (JObj [(''toonkor_id'', JStr ''/abc''), (''chapter'', JStr ''4''),
               (''progress'', JObj [(''current'', JInt 1)])]))) Map.empty
     (JStr ''/abc'', JInt 4, ''translation_status'') = Some ''READY'' \<and>
   broadcasts (fst (QtConsumer_receive strip_slashes digit4 store_abc
        (JObj [(''toonkor_id'', JStr ''/abc''), (''chapter'', JStr ''4''),
               (''progress'', JObj [(''current'', JInt 1)])]))) =
     [(''download_translate_abc'',
       JObj [(''type'', JStr ''send_progress''),
             (''chapters'', JList [JObj [(''index'', JInt 4), (''status'', JStr ''Translated'')]]),
             (''progress'', JObj [(''current'', JInt 1)])])]"
proof -
  let ?data = "JObj [(''toonkor_id'', JStr ''/abc''), (''chapter'', JStr ''4''),
                     (''progress'', JObj [(''current'', JInt 1)])]"
  have a: "getitem ?data ''toonkor_id'' = Inr (JStr ''/abc'')" by simp
  have b: "getitem ?data ''chapter'' = Inr (JStr ''4'')" by simp
  have c: "py_int digit4 (JStr ''4'') = Inr 4" by (simp add: digit4_def)
  have d: "store_abc (JStr ''/abc'', 4)
      = Some \<lparr>download_status = READY, translation_status = NONE\<rparr>"
    by (simp add: store_abc_def)
  have e: "getitem ?data ''progress'' = Inr (JObj [(''current'', JInt 1)])" by simp
  show ?thesis
    using d translation_ready_short_circuit [where st = store_abc and cache = Map.empty
        and encode_name = strip_slashes, OF a b c d e]
    by (simp add: Let_def group_of_def strip_slashes_def)
qed

subsection \<open>C7: a removal of the downloaded artifacts only\<close>

text \<open>
  C7: for every removal request whose \<^verbatim>\<open>downloaded\<close> flag is true and whose \<^verbatim>\<open>translated\<close>
  flag is false, on chapters that all have an index, the call returns; every
  \<^verbatim>\<open>translation_status\<close> entry of the cache is what it was before the call; and the chapters
  of the one message broadcast have, in order, the \<^verbatim>\<open>translation_status\<close> (or the lack of
  one) of the chapters of the request.
\<close>

theorem remove_downloaded_only_keeps_translation_status:
  assumes "list_all chapter_ok cs"
    and "getitem remove_choices ''downloaded'' = Inr d" and "truthy d"
    and "getitem remove_choices ''translated'' = Inr t" and "\<not> truthy t"
  shows "(let r = run_remove self (JList cs) remove_choices in
      snd r = Inr () \<and>
      (\<forall>s i. cache_after (fst r) cache (s, i, ''translation_status'')
              = cache (s, i, ''translation_status'')) \<and>
      (\<exists>cs'. map snd (broadcasts (fst r)) =
           [JObj [(''type'', JStr ''send_progress''),
                  (''chapters'', JList cs'),
                  (''progress'', JObj [])]] \<and>
         map (\<lambda>c'. getitem c' ''translation_status'') cs'
           = map (\<lambda>c. getitem c ''translation_status'') cs))"
proof -
  have rc: "choices_ok remove_choices"
    using assms(2,4) by (cases remove_choices) (auto split: option.splits)
  have ft: "\<not> flag remove_choices ''translated''" by (simp add: flag_def assms)
  let ?ws = "concat (map (removing_writes (manhwa_id self) remove_choices) cs)"
  note run = run_remove_ok [OF assms(1) rc, of self]
  have c: "cache_after (fst (run_remove self (JList cs) remove_choices)) cache
             (s, i, ''translation_status'') = cache (s, i, ''translation_status'')" for s i
    by (simp add: run cache_after_untouched [OF removing_writes_no_translation])
  have b: "map snd (broadcasts (fst (run_remove self (JList cs) remove_choices))) =
      [JObj [(''type'', JStr ''send_progress''),
              (''chapters'', JList (map (removing_mark remove_choices) cs)),
              (''progress'', JObj [])]]"
    by (simp add: run broadcasts_updates [OF removing_writes_are_updates])
       (simp add: broadcasts_def)
  have m: "getitem (removing_mark remove_choices c) ''translation_status''
             = getitem c ''translation_status''" for c
    by (simp add: removing_mark_def ft getitem_assign_other)
  have s: "snd (run_remove self (JList cs) remove_choices) = Inr ()"
    by (simp add: run)
  show ?thesis
    unfolding Let_def
    by (intro conjI allI exI [where x = "map (removing_mark remove_choices) cs"])
       (simp_all add: s c b m)
qed

text \<open>Witness of C7: chapter 3 of \<^verbatim>\<open>/abc\<close>, translated, its cache entry \<^verbatim>\<open>READY\<close>.\<close>

theorem remove_downloaded_only_keeps_translation_status_witness:
  "truthy (JBool True) \<and> \<not> truthy (JBool False) \<and>
   list_all chapter_ok [JObj [(''index'', JInt 3), (''translation_status'', JStr ''READY'')]] \<and>
   map snd (broadcasts (fst (run_remove series_abc
       (JList [JObj [(''index'', JInt 3), (''translation_status'', JStr ''READY'')]])
       (JObj [(''downloaded'', JBool True), (''translated'', JBool False)])))) =
     [JObj [(''type'', JStr ''send_progress''),
            (''chapters'',
             JList [JObj [(''index'', JInt 3), (''translation_status'', JStr ''READY''),
                          (''download_status'', JStr ''REMOVING'')]]),
            (''progress'', JObj [])]] \<and>
   cache_after (fst (run_remove series_abc
       (JList [JObj [(''index'', JInt 3), (''translation_status'', JStr ''READY'')]])
       (JObj [(''downloaded'', JBool True), (''translated'', JBool False)])))
     (Map.empty((JStr ''/abc'', JInt 3, ''translation_status'') \<mapsto> ''READY''))
     (JStr ''/abc'', JInt 3, ''translation_status'') = Some ''READY''"
proof -
  let ?rc = "JObj [(''downloaded'', JBool True), (''translated'', JBool False)]"
  have h: "list_all chapter_ok [JObj [(''index'', JInt 3), (''translation_status'', JStr ''READY'')]]"
    by simp
  have d: "getitem ?rc ''downloaded'' = Inr (JBool True)" by simp
  have t: "getitem ?rc ''translated'' = Inr (JBool False)" by simp
  have td: "truthy (JBool True)" by simp
  have tt: "\<not> truthy (JBool False)" by simp
  show ?thesis
    using h remove_downloaded_only_keeps_translation_status [OF h d td t tt, of series_abc
        "Map.empty((JStr ''/abc'', JInt 3, ''translation_status'') \<mapsto> ''READY'')"]
    by (simp add: eval_defs)
qed

subsection \<open>C8: the broadcast of a removal\<close>

text \<open>
  C8: for every removal request whose chapters all have an index and whose targets carry
  both flags, exactly one message is broadcast, to the group of the consumer, with as many
  chapters as the request lists and with the empty dict as its progress counter.
\<close>

theorem remove_broadcast_once_empty_progress:
  assumes "list_all chapter_ok cs" and "choices_ok remove_choices"
  shows "\<exists>cs'. broadcasts (fst (run_remove self (JList cs) remove_choices)) =
           [(group_name self,
             JObj [(''type'', JStr ''send_progress''),
                   (''chapters'', JList cs'),
                   (''progress'', JObj [])])] \<and>
           length cs' = length cs"
proof -
  have "broadcasts (fst (run_remove self (JList cs) remove_choices)) =
      [(group_name self,
        JObj [(''type'', JStr ''send_progress''),
              (''chapters'', JList (map (removing_mark remove_choices) cs)),
              (''progress'', JObj [])])]"
    by (simp add: run_remove_ok [OF assms] broadcasts_updates [OF removing_writes_are_updates])
       (simp add: broadcasts_def)
  then show ?thesis by simp
qed

text \<open>Witness of C8: the removal of both artifact classes of chapter 3 of \<^verbatim>\<open>/abc\<close>.\<close>

theorem remove_broadcast_once_empty_progress_witness:
  "list_all chapter_ok [JObj [(''index'', JInt 3)]] \<and>
   choices_ok (JObj [(''downloaded'', JBool True), (''translated'', JBool True)]) \<and>
   broadcasts (fst (run_remove series_abc (JList [JObj [(''index'', JInt 3)]])
       (JObj [(''downloaded'', JBool True), (''translated'', JBool True)]))) =
     [(''download_translate_abc'',
       JObj [(''type'', JStr ''send_progress''),
             (''chapters'',
              JList [JObj [(''index'', JInt 3), (''download_status'', JStr ''REMOVING''),
                           (''translation_status'', JStr ''REMOVING'')]]),
             (''progress'', JObj [])])]"
proof -
  have h: "list_all chapter_ok [JObj [(''index'', JInt 3)]]" by simp
  have c: "choices_ok (JObj [(''downloaded'', JBool True), (''translated'', JBool True)])"
    by simp
  show ?thesis
    using h c remove_broadcast_once_empty_progress [OF h c, of series_abc]
    by (simp add: eval_defs)
qed

subsection \<open>C9: cache writes, then the broadcast, then the queue\<close>

text \<open>
  C9: in every call of \<^verbatim>\<open>run_download_translate\<close> and of \<^verbatim>\<open>run_remove\<close>, whatever the
  arguments, a call that returns has made its cache writes first, then the one broadcast,
  then the one call that appends the batch to the queue of the downloader or of the cleaner,
  and nothing else; a call that an exception ends has made cache writes only.
\<close>

theorem cache_writes_then_broadcast_then_enqueue:
  "(case snd (run_download_translate self task chapters) of
      Inr _ \<Rightarrow> dispatched (fst (run_download_translate self task chapters))
    | Inl _ \<Rightarrow> list_all is_cache_update (fst (run_download_translate self task chapters))) \<and>
   (case snd (run_remove self chapters remove_choices) of
      Inr _ \<Rightarrow> dispatched (fst (run_remove self chapters remove_choices))
    | Inl _ \<Rightarrow> list_all is_cache_update (fst (run_remove self chapters remove_choices)))"
  by (intro conjI run_download_translate_shape run_remove_shape)

text \<open>Witness of C9: two calls that return, and one that a chapter without index ends.\<close>

theorem cache_writes_then_broadcast_then_enqueue_witness:
  "dispatched (fst (run_download_translate series_abc (JStr ''download_translate'')
       (JList [JObj [(''index'', JInt 1)], JObj [(''index'', JInt 2)]]))) \<and>
   dispatched (fst (run_remove series_abc (JList [JObj [(''index'', JInt 3)]])
       (JObj [(''downloaded'', JBool True), (''translated'', JBool True)]))) \<and>
   fst (run_remove series_abc (JList [JObj [(''index'', JInt 3)], JObj []])
       (JObj [(''downloaded'', JBool True), (''translated'', JBool True)])) =
     [CacheUpdate (JStr ''/abc'') (JInt 3) ''download_status'' ''REMOVING'',
      CacheUpdate (JStr ''/abc'') (JInt 3) ''remove_status'' ''REMOVING'']"
  using cache_writes_then_broadcast_then_enqueue [of series_abc "JStr ''download_translate''"
      "JList [JObj [(''index'', JInt 1)], JObj [(''index'', JInt 2)]]"
      "JObj [(''downloaded'', JBool True), (''translated'', JBool True)]"]
    cache_writes_then_broadcast_then_enqueue [of series_abc "JStr ''download''"
      "JList [JObj [(''index'', JInt 3)]]"
      "JObj [(''downloaded'', JBool True), (''translated'', JBool True)]"]
  by (simp add: eval_defs)

subsection \<open>C10: the list \<^verbatim>\<open>sanitize_and_copy_files\<close> returns\<close>

text \<open>
  C10 says that \<^verbatim>\<open>sanitize_and_copy_files\<close> returns, for every list of paths, a list of the
  same length, so that \<^verbatim>\<open>sanitize_and_copy_files([path])[0]\<close> in \<^verbatim>\<open>prepare_files\<close> never
  fails. When it returns, the list is as C10 says (\<open>sanitize_loop_keeps_ascii\<close>), and on
  ASCII paths it always returns (\<open>sanitize_loop_ascii_total\<close>). But \<^verbatim>\<open>os.makedirs\<close> at line
  46 is outside the \<^verbatim>\<open>try\<close> that guards the copy, so whatever it raises ends the call
  (\<open>sanitize_makedirs_failure\<close>). On the relative path of an e-acute followed by \<^verbatim>\<open>.png\<close> (code
  points 233, 46, 112, 110, 103) the directory name is empty, \<^verbatim>\<open>os.makedirs('')\<close> raises
  FileNotFoundError on every file system, and neither \<^verbatim>\<open>sanitize_and_copy_files\<close> nor
  \<^verbatim>\<open>prepare_files\<close> returns a list.
\<close>

theorem sanitize_relative_non_ascii_raises:
  "sanitize_and_copy_files env [[233, 46, 112, 110, 103]] fs = (Inl FileNotFoundError, fs) \<and>
   prepare_files env \<lparr>file_paths = [[233, 46, 112, 110, 103]], archive_info = []\<rparr> fs =
     (Inl FileNotFoundError, \<lparr>file_paths = [[233, 46, 112, 110, 103]], archive_info = []\<rparr>, fs)"
proof -
  have s: "sanitize_and_copy_files env [[233, 46, 112, 110, 103]] fs = (Inl FileNotFoundError, fs)"
    by (simp add: path_defs)
  have a: "\<not> endswith (lower [233, 46, 112, 110, 103]) archive_suffixes"
    by (simp add: endswith_def lower_def archive_suffixes_def ascii_def)
  show ?thesis
    by (simp add: s a prepare_files_def)
qed

end
